theory Spec2Isabelle
  imports Complex_Main "HOL-Library.Sublist"
begin

section \<open>Values shared by the two programs\<close>

text \<open>
  A JSON value as Python's \<^verbatim>\<open>json\<close> module returns it: a number, a string, a
  boolean, null, or a container. The exception classes the code can meet; all are
  subclasses of \<^verbatim>\<open>Exception\<close>.
\<close>

datatype json = JNum real | JStr string | JBool bool | JNull | JContainer

datatype exc =
    ValueError | TypeError | ZeroDivisionError | KeyError | IndexError
  | AttributeError | OSError | IntegrityError | InterfaceError | RequestException

section \<open>Python string operations used by the classifier\<close>

text \<open>
  Text is a list of characters; a character of the model is a code point below 256.
  \<open>is_space\<close> is Python's \<^verbatim>\<open>str.isspace\<close> on that range: the characters that
  \<^verbatim>\<open>str.strip()\<close> removes.
\<close>

definition is_space :: "char \<Rightarrow> bool" where
  "is_space c =
     (let n = (of_char c :: nat)
      in (9 \<le> n \<and> n \<le> 13) \<or> (28 \<le> n \<and> n \<le> 32) \<or> n = 133 \<or> n = 160)"

definition lstrip :: "string \<Rightarrow> string" where
  "lstrip s = dropWhile is_space s"

definition rstrip :: "string \<Rightarrow> string" where
  "rstrip s = rev (dropWhile is_space (rev s))"

definition strip :: "string \<Rightarrow> string" where
  "strip s = rstrip (lstrip s)"

text \<open>\<^verbatim>\<open>s.find(sub)\<close>: the lowest index at which \<open>sub\<close> starts in \<open>s\<close>, or \<open>-1\<close>.\<close>

fun str_find :: "string \<Rightarrow> string \<Rightarrow> int" where
  "str_find [] sub = (if sub = [] then 0 else - 1)"
| "str_find (c # cs) sub =
     (if prefix sub (c # cs) then 0
      else (let r = str_find cs sub in if r < 0 then - 1 else r + 1))"

text \<open>\<^verbatim>\<open>s.split(',')\<close>: never empty; the empty string splits into one empty token.\<close>

fun split_comma :: "string \<Rightarrow> string list" where
  "split_comma [] = [[]]"
| "split_comma (c # cs) =
     (if c = CHR '','' then [] # split_comma cs
      else (case split_comma cs of
              [] \<Rightarrow> [[c]]
            | t # ts \<Rightarrow> (c # t) # ts))"

text \<open>
  The parsing of a status-200 response text in \<^verbatim>\<open>classify_image_with_ollama\<close>
  (lines 176 to 193).
\<close>

definition parse_tags :: "string \<Rightarrow> string list" where
  "parse_tags response_text =
     (let tags_start = str_find response_text ''TAGS:'';
          tags =
            (if tags_start \<ge> 0 then
               (let tags_text = strip (drop (nat (tags_start + 5)) response_text)
                in map strip (filter (\<lambda>tag. strip tag \<noteq> []) (split_comma tags_text)))
             else map strip (filter (\<lambda>tag. strip tag \<noteq> []) (split_comma response_text)));
          tags = filter (\<lambda>tag. tag \<noteq> [] \<and> CHR '' '' \<notin> set tag) tags
      in if tags = [] then [''uncategorized''] else tags)"


section \<open>The classifier (import\_worker.py)\<close>

text \<open>
  What one call of \<^verbatim>\<open>classify_image_with_ollama\<close> meets: the image file cannot be
  read, the HTTP request fails in transport, or a response arrives with a status code
  and a body. The body is no JSON, JSON that is not an object, or an object whose
  \<^verbatim>\<open>response\<close> entry (if any) is a JSON value.
\<close>

datatype reply_body = InvalidJson | JsonNonObject | JsonObject "json option"

datatype attempt = ReadError | Transport | Response nat reply_body

datatype outcome = Tags "string list" | NonSuccess

datatype event = Attempt | Request | LogWarning | Sleep nat | LogError

text \<open>
  The body of the \<^verbatim>\<open>try\<close> up to the status test (lines 136 to 195), with the
  exception it raises, if any. \<open>json_exc\<close> is the exception class that
  \<^verbatim>\<open>response.json()\<close> raises on a body that is no JSON; it belongs to the
  \<^verbatim>\<open>requests\<close> library (a \<^verbatim>\<open>RequestException\<close> in recent versions, a
  \<^verbatim>\<open>ValueError\<close> in older ones) and is a parameter here.
\<close>

fun attempt_body :: "exc \<Rightarrow> attempt \<Rightarrow> (exc + outcome) \<times> event list" where
  "attempt_body json_exc ReadError = (Inl OSError, [Attempt])"
| "attempt_body json_exc Transport = (Inl RequestException, [Attempt, Request])"
| "attempt_body json_exc (Response status_code body) =
     (if status_code = 200 then
        (case body of
           InvalidJson \<Rightarrow> (Inl json_exc, [Attempt, Request])
         | JsonNonObject \<Rightarrow> (Inl AttributeError, [Attempt, Request])
         | JsonObject v \<Rightarrow>
             (case (case v of None \<Rightarrow> JStr '''' | Some x \<Rightarrow> x) of
                JStr response_text \<Rightarrow> (Inr (Tags (parse_tags response_text)), [Attempt, Request])
              | _ \<Rightarrow> (Inl AttributeError, [Attempt, Request])))
      else (Inr NonSuccess, [Attempt, Request]))"

text \<open>
  \<^verbatim>\<open>classify_image_with_ollama(image_path, ollama_url, model_name, retries)\<close>.
  \<open>replies k\<close> is what the \<open>k\<close>-th call made for this image meets; the result is
  the tag list returned and the trace of what was done. Every exception of the body is
  caught by one of the two handlers, so the function returns a list in every branch.
\<close>

function classify_image_with_ollama ::
  "exc \<Rightarrow> (nat \<Rightarrow> attempt) \<Rightarrow> nat \<Rightarrow> int \<Rightarrow> string list \<times> event list" where
  "classify_image_with_ollama json_exc replies k retries =
     (case attempt_body json_exc (replies k) of
        (Inr (Tags tags), tr) \<Rightarrow> (tags, tr)
      | (Inr NonSuccess, tr) \<Rightarrow>
          if retries > 0 then
            (let (tags, tr') = classify_image_with_ollama json_exc replies (k + 1) (retries - 1)
             in (tags, tr @ [LogWarning, Sleep 2] @ tr'))
          else ([''uncategorized''], tr @ [LogError])
      | (Inl e, tr) \<Rightarrow>
          if e = RequestException then
            (if retries > 0 then
               (let (tags, tr') = classify_image_with_ollama json_exc replies (k + 1) (retries - 1)
                in (tags, tr @ [LogWarning, Sleep 2] @ tr'))
             else ([''error''], tr @ [LogError]))
          else ([''error''], tr @ [LogError]))"
  by pat_completeness auto
termination
  by (relation "measure (\<lambda>(json_exc, replies, k, retries). nat retries)") auto

text \<open>
  The failures the retry is for: a transport failure, or a response whose status is not
  200.
\<close>

fun transient_failure :: "attempt \<Rightarrow> bool" where
  "transient_failure Transport = True"
| "transient_failure (Response status_code body) = (status_code \<noteq> 200)"
| "transient_failure ReadError = False"

text \<open>
  A reply sequence given by a finite script: the calls beyond the script meet a
  transport failure.
\<close>

definition scripted :: "attempt list \<Rightarrow> nat \<Rightarrow> attempt" where
  "scripted as k = (if k < length as then as ! k else Transport)"

section \<open>Metadata extraction (import\_worker.py)\<close>

text \<open>
  An EXIF value as the imaging library hands it over: a number (its value, and the text
  Python's \<^verbatim>\<open>str\<close> gives for it), a string, a sequence, or a dictionary with integer
  keys; the containers carry their \<^verbatim>\<open>str\<close> text too.
\<close>

datatype exif_val =
    Num rat string
  | Text string
  | Seq "exif_val list" string
  | Dict_val "(nat \<times> exif_val) list" string

fun py_str :: "exif_val \<Rightarrow> string" where
  "py_str (Num r s) = s"
| "py_str (Text s) = s"
| "py_str (Seq xs s) = s"
| "py_str (Dict_val d s) = s"

text \<open>Comparison and arithmetic with a number raise \<^verbatim>\<open>TypeError\<close> on anything else.\<close>

fun py_num :: "exif_val \<Rightarrow> exc + rat" where
  "py_num (Num r s) = Inr r"
| "py_num _ = Inl TypeError"

text \<open>\<^verbatim>\<open>k in v\<close> and \<^verbatim>\<open>v[k]\<close> for an integer \<open>k\<close>.\<close>

fun is_num_eq :: "nat \<Rightarrow> exif_val \<Rightarrow> bool" where
  "is_num_eq k (Num r s) = (r = of_nat k)"
| "is_num_eq k _ = False"

fun py_contains :: "nat \<Rightarrow> exif_val \<Rightarrow> exc + bool" where
  "py_contains k (Dict_val d s) = Inr (map_of d k \<noteq> None)"
| "py_contains k (Seq xs s) = Inr (list_ex (is_num_eq k) xs)"
| "py_contains k (Text s) = Inl TypeError"
| "py_contains k (Num r s) = Inl TypeError"

fun py_item :: "exif_val \<Rightarrow> nat \<Rightarrow> exc + exif_val" where
  "py_item (Dict_val d s) k = (case map_of d k of None \<Rightarrow> Inl KeyError | Some v \<Rightarrow> Inr v)"
| "py_item (Seq xs s) k = (if k < length xs then Inr (xs ! k) else Inl IndexError)"
| "py_item (Text s) k = (if k < length s then Inr (Text [s ! k]) else Inl IndexError)"
| "py_item (Num r s) k = Inl TypeError"

definition bind_exc :: "exc + 'a \<Rightarrow> ('a \<Rightarrow> exc + 'b) \<Rightarrow> exc + 'b" where
  "bind_exc m f = (case m of Inl e \<Rightarrow> Inl e | Inr x \<Rightarrow> f x)"

text \<open>Decimal text of an integer, as an f-string renders an \<^verbatim>\<open>int\<close>.\<close>

definition digit_char :: "nat \<Rightarrow> char" where
  "digit_char d = ''0123456789'' ! d"

fun show_nat :: "nat \<Rightarrow> string" where
  "show_nat n =
     (if n < 10 then [digit_char n]
      else show_nat (n div 10) @ [digit_char (n mod 10)])"

definition show_int :: "int \<Rightarrow> string" where
  "show_int i = (if i < 0 then CHR ''-'' # show_nat (nat (- i)) else show_nat (nat i))"

text \<open>\<^verbatim>\<open>int(x)\<close> on a number: truncation towards zero.\<close>

definition py_int :: "rat \<Rightarrow> int" where
  "py_int x = (if x \<ge> 0 then \<lfloor>x\<rfloor> else \<lceil>x\<rceil>)"

text \<open>
  Two functions of Python's libraries are parameters: the parse of a date string by
  \<^verbatim>\<open>strptime\<close> with the pattern \<^verbatim>\<open>%Y:%m:%d %H:%M:%S\<close> followed by
  \<^verbatim>\<open>isoformat()\<close> (\<open>None\<close> when \<^verbatim>\<open>strptime\<close> raises \<^verbatim>\<open>ValueError\<close>), and the
  text an f-string gives for a computed number.
\<close>

record pylib =
  strptime_iso :: "string \<Rightarrow> string option"
  fmt_num :: "rat \<Rightarrow> string"

record metadata =
  date_taken :: "string option"
  camera_model :: "exif_val option"
  lens :: "exif_val option"
  aperture :: "string option"
  shutter_speed :: "string option"
  iso :: "string option"
  focal_length :: "string option"
  gps :: "string option"
  width :: "int option"
  height :: "int option"

definition no_metadata :: metadata where
  "no_metadata =
     \<lparr>date_taken = None, camera_model = None, lens = None, aperture = None,
      shutter_speed = None, iso = None, focal_length = None, gps = None,
      width = None, height = None\<rparr>"

type_synonym exif = "string \<rightharpoonup> exif_val"

text \<open>
  The derivations of lines 77 to 127, one per block. A block assigns its field as its
  last action, so a block that raises leaves the record as it found it.
\<close>

definition date_step :: "pylib \<Rightarrow> exif \<Rightarrow> metadata \<Rightarrow> exc + metadata" where
  "date_step lib ex m =
     (case ex ''DateTimeOriginal'' of
        None \<Rightarrow> Inr m
      | Some (Text date_str) \<Rightarrow>
          (case strptime_iso lib date_str of
             Some iso_text \<Rightarrow> Inr (m\<lparr>date_taken := Some iso_text\<rparr>)
           | None \<Rightarrow> Inr m)
      | Some _ \<Rightarrow> Inl TypeError)"

definition camera_step :: "exif \<Rightarrow> metadata \<Rightarrow> exc + metadata" where
  "camera_step ex m =
     (case (ex ''Make'', ex ''Model'') of
        (Some mk, Some mdl) \<Rightarrow>
          Inr (m\<lparr>camera_model := Some (Text (strip (py_str mk @ '' '' @ py_str mdl)))\<rparr>)
      | (None, Some mdl) \<Rightarrow> Inr (m\<lparr>camera_model := Some mdl\<rparr>)
      | (_, None) \<Rightarrow> Inr m)"

definition lens_step :: "exif \<Rightarrow> metadata \<Rightarrow> exc + metadata" where
  "lens_step ex m =
     (case ex ''LensModel'' of
        None \<Rightarrow> Inr m
      | Some v \<Rightarrow> Inr (m\<lparr>lens := Some v\<rparr>))"

definition aperture_step :: "exif \<Rightarrow> metadata \<Rightarrow> exc + metadata" where
  "aperture_step ex m =
     (case ex ''FNumber'' of
        None \<Rightarrow> Inr m
      | Some v \<Rightarrow>
          bind_exc (py_num v) (\<lambda>f.
            if f > 0 then Inr (m\<lparr>aperture := Some (''f/'' @ py_str v)\<rparr>) else Inr m))"

text \<open>Lines 100 to 105: the shutter speed from the exposure time.\<close>

definition shutter_text :: "exif_val \<Rightarrow> exc + string" where
  "shutter_text exp_time =
     bind_exc (py_num exp_time) (\<lambda>t.
       if t < 1 then
         (if t = 0 then Inl ZeroDivisionError
          else Inr (''1/'' @ show_int (py_int (1 / t)) @ ''s''))
       else Inr (py_str exp_time @ ''s''))"

definition shutter_step :: "exif \<Rightarrow> metadata \<Rightarrow> exc + metadata" where
  "shutter_step ex m =
     (case ex ''ExposureTime'' of
        None \<Rightarrow> Inr m
      | Some exp_time \<Rightarrow>
          bind_exc (shutter_text exp_time) (\<lambda>s. Inr (m\<lparr>shutter_speed := Some s\<rparr>)))"

definition iso_step :: "exif \<Rightarrow> metadata \<Rightarrow> exc + metadata" where
  "iso_step ex m =
     (case ex ''ISOSpeedRatings'' of
        None \<Rightarrow> Inr m
      | Some v \<Rightarrow> Inr (m\<lparr>iso := Some (''ISO '' @ py_str v)\<rparr>))"

definition focal_step :: "exif \<Rightarrow> metadata \<Rightarrow> exc + metadata" where
  "focal_step ex m =
     (case ex ''FocalLength'' of
        None \<Rightarrow> Inr m
      | Some v \<Rightarrow> Inr (m\<lparr>focal_length := Some (py_str v @ ''mm'')\<rparr>))"

text \<open>\<^verbatim>\<open>x[0] + x[1]/60 + x[2]/3600\<close>, in Python's order of evaluation.\<close>

definition dms :: "exif_val \<Rightarrow> exc + rat" where
  "dms x =
     bind_exc (py_item x 0) (\<lambda>d.
     bind_exc (py_item x 1) (\<lambda>mi.
     bind_exc (py_num mi) (\<lambda>mq.
     bind_exc (py_num d) (\<lambda>dq.
     bind_exc (py_item x 2) (\<lambda>s.
     bind_exc (py_num s) (\<lambda>sq.
       Inr (dq + mq / 60 + sq / 3600)))))))"

definition gps_step :: "pylib \<Rightarrow> exif \<Rightarrow> metadata \<Rightarrow> exc + metadata" where
  "gps_step lib ex m =
     (case ex ''GPSInfo'' of
        None \<Rightarrow> Inr m
      | Some g \<Rightarrow>
          bind_exc (py_contains 2 g) (\<lambda>has2.
            if \<not> has2 then Inr m
            else bind_exc (py_contains 4 g) (\<lambda>has4.
              if \<not> has4 then Inr m
              else
                bind_exc (py_item g 2) (\<lambda>lat.
                bind_exc (py_item g 4) (\<lambda>lon.
                bind_exc (py_item g 1) (\<lambda>lat_ref.
                bind_exc (py_item g 3) (\<lambda>lon_ref.
                bind_exc (dms lat) (\<lambda>lat.
                bind_exc (dms lon) (\<lambda>lon.
                  let lat = (if lat_ref = Text ''S'' then - lat else lat);
                      lon = (if lon_ref = Text ''W'' then - lon else lon)
                  in Inr (m\<lparr>gps := Some (fmt_num lib lat @ '','' @ fmt_num lib lon)\<rparr>))))))))))"

text \<open>
  The statements of a \<^verbatim>\<open>try\<close> block in sequence: the first one that raises ends the
  block, and the record keeps what the earlier ones assigned.
\<close>

fun run_steps :: "(metadata \<Rightarrow> exc + metadata) list \<Rightarrow> metadata \<Rightarrow> metadata \<times> exc option" where
  "run_steps [] m = (m, None)"
| "run_steps (step # steps) m =
     (case step m of
        Inl e \<Rightarrow> (m, Some e)
      | Inr m' \<Rightarrow> run_steps steps m')"

text \<open>
  What \<^verbatim>\<open>Image.open\<close> finds at a path: no readable image, or an image with its size
  and its EXIF state (none, unreadable, or a dictionary by tag name).
\<close>

datatype exif_state = NoExif | ExifRaises | Exif exif

datatype image_file = NotAnImage | Image int int exif_state

text \<open>
  \<^verbatim>\<open>extract_image_metadata(image_path)\<close>: the record returned, and the exception that
  the outer handler caught and logged, if any.
\<close>

definition extract_image_metadata :: "pylib \<Rightarrow> image_file \<Rightarrow> metadata \<times> exc option" where
  "extract_image_metadata lib img =
     (case img of
        NotAnImage \<Rightarrow> (no_metadata, Some OSError)
      | Image w h st \<Rightarrow>
          (let m = no_metadata\<lparr>width := Some w, height := Some h\<rparr>
           in case st of
                NoExif \<Rightarrow> (m, None)
              | ExifRaises \<Rightarrow> (m, Some ValueError)
              | Exif ex \<Rightarrow>
                  run_steps
                    [date_step lib ex, camera_step ex, lens_step ex, aperture_step ex,
                     shutter_step ex, iso_step ex, focal_step ex, gps_step lib ex] m))"

text \<open>
  One instance of the library parameters, for concrete runs: no date string parses, and a
  computed number is rendered as Python renders a \<^verbatim>\<open>Fraction\<close>.
\<close>

definition str_fraction :: "rat \<Rightarrow> string" where
  "str_fraction r =
     (let (n, d) = quotient_of r
      in if d = 1 then show_int n else show_int n @ ''/'' @ show_int d)"

definition plain_lib :: pylib where
  "plain_lib = \<lparr>strptime_iso = Map.empty, fmt_num = str_fraction\<rparr>"


section \<open>The catalog and the import pipeline\<close>

text \<open>
  The two tables of the database. A row of \<^verbatim>\<open>images\<close> holds its tag list as JSON text
  written by \<^verbatim>\<open>json.dumps\<close> and read back by \<^verbatim>\<open>json.loads\<close>; the model keeps the
  list itself. The table \<^verbatim>\<open>tags\<close> maps a tag name (its unique key) to a count.
\<close>

record image_row =
  row_id :: nat
  filename :: string
  original_path :: string
  hash :: string
  thumbnail_path :: string
  tags :: "string list"
  meta :: metadata

record db =
  images :: "image_row list"
  tag_counts :: "string \<rightharpoonup> int"
  next_id :: nat

definition empty_db :: db where
  "empty_db = \<lparr>images = [], tag_counts = Map.empty, next_id = 1\<rparr>"

text \<open>
  Lines 357 to 363: \<^verbatim>\<open>INSERT INTO tags (name, count) VALUES (?, 1)\<close>, and on the
  uniqueness violation \<^verbatim>\<open>UPDATE tags SET count = count + 1\<close>.
\<close>

definition add_or_update_tag :: "string \<Rightarrow> (string \<rightharpoonup> int) \<Rightarrow> (string \<rightharpoonup> int)" where
  "add_or_update_tag tag counts =
     (case counts tag of
        None \<Rightarrow> counts(tag \<mapsto> 1)
      | Some c \<Rightarrow> counts(tag \<mapsto> c + 1))"

text \<open>
  SQLite binds \<^verbatim>\<open>None\<close>, numbers and strings as column values; for a container the
  insertion raises.
\<close>

fun bindable :: "exif_val option \<Rightarrow> bool" where
  "bindable None = True"
| "bindable (Some (Num r s)) = True"
| "bindable (Some (Text s)) = True"
| "bindable (Some (Seq xs s)) = False"
| "bindable (Some (Dict_val d s)) = False"

text \<open>
  Lines 329 to 365: the insertion of the image row, the loop over the tags, and the
  commit. The insertion raises when the hash is already in the table (the column is
  \<^verbatim>\<open>UNIQUE\<close>) or a value cannot be bound; nothing is written then.
\<close>

definition insert_image ::
  "string \<Rightarrow> string \<Rightarrow> string \<Rightarrow> string \<Rightarrow> string list \<Rightarrow> metadata \<Rightarrow> db \<Rightarrow> exc + db" where
  "insert_image secure_name path file_hash thumb tag_list md d =
     (if \<not> bindable (camera_model md) \<or> \<not> bindable (lens md) then Inl InterfaceError
      else if list_ex (\<lambda>r. hash r = file_hash) (images d) then Inl IntegrityError
      else Inr (d\<lparr>images := images d @
                     [\<lparr>row_id = next_id d, filename = secure_name, original_path = path,
                       hash = file_hash, thumbnail_path = thumb, tags = tag_list,
                       meta = md\<rparr>],
                   tag_counts := fold add_or_update_tag tag_list (tag_counts d),
                   next_id := next_id d + 1\<rparr>))"

text \<open>\<^verbatim>\<open>update_image_tags(image_id, tags)\<close> of app.py.\<close>

definition decrease_tag :: "string \<Rightarrow> (string \<rightharpoonup> int) \<Rightarrow> (string \<rightharpoonup> int)" where
  "decrease_tag tag counts =
     (case counts tag of
        None \<Rightarrow> counts
      | Some c \<Rightarrow> counts(tag \<mapsto> c - 1))"

definition update_image_tags :: "nat \<Rightarrow> string list \<Rightarrow> db \<Rightarrow> db" where
  "update_image_tags image_id new_tags d =
     (let cur_image = find (\<lambda>r. row_id r = image_id) (images d);
          counts1 =
            (case cur_image of
               None \<Rightarrow> tag_counts d
             | Some r \<Rightarrow>
                 fold (\<lambda>tag c. if tag \<notin> set new_tags then decrease_tag tag c else c)
                   (tags r) (tag_counts d));
          rows = map (\<lambda>r. if row_id r = image_id then r\<lparr>tags := new_tags\<rparr> else r) (images d);
          counts2 =
            fold (\<lambda>tag c.
                    case c tag of
                      None \<Rightarrow> c(tag \<mapsto> 1)
                    | Some n \<Rightarrow>
                        (case cur_image of
                           None \<Rightarrow> c
                         | Some r \<Rightarrow> if tag \<notin> set (tags r) then c(tag \<mapsto> n + 1) else c))
              new_tags counts1
      in d\<lparr>images := rows, tag_counts := counts2\<rparr>)"

text \<open>
  What the pipeline meets outside itself: for each source path the digest computed by
  \<^verbatim>\<open>calculate_file_hash\<close> (\<open>None\<close> when reading fails), whether the copy into the
  managed directory raises, the image that the copy holds, and the replies the
  classifier gets for it; the library parameters; the managed thumbnail directory; and
  the clock, read at each progress write (by the number of writes made before).
\<close>

record world =
  hash_of :: "string \<Rightarrow> string option"
  copy_fails :: "string \<Rightarrow> bool"
  image_at :: "string \<Rightarrow> image_file"
  replies_for :: "string \<Rightarrow> nat \<Rightarrow> attempt"
  json_error :: exc
  library :: pylib
  thumbnails_dir :: string
  clock :: "nat \<Rightarrow> real"

record progress =
  total :: nat
  current :: nat
  status :: string
  timestamp :: real

datatype log_line =
    CouldNotHash string
  | SkippingDuplicate string
  | Processed nat nat string
  | ErrorProcessing string exc
  | ImportCompleted nat nat

text \<open>
  The state of a run: the database, the two counters, every content written to the
  progress file so far (the latest last), and the log lines of the pipeline.
\<close>

record run =
  catalog :: db
  processed :: nat
  skipped :: nat
  progress_log :: "progress list"
  log_lines :: "log_line list"

definition update_progress :: "world \<Rightarrow> nat \<Rightarrow> nat \<Rightarrow> string \<Rightarrow> run \<Rightarrow> run" where
  "update_progress w total_images cur st_name st =
     st\<lparr>progress_log := progress_log st @
          [\<lparr>total = total_images, current = cur, status = st_name,
            timestamp = clock w (length (progress_log st))\<rparr>]\<rparr>"

text \<open>\<^verbatim>\<open>os.path.basename\<close> and \<^verbatim>\<open>os.path.join\<close> of two parts, on POSIX paths.\<close>

definition basename :: "string \<Rightarrow> string" where
  "basename p = rev (takeWhile (\<lambda>c. c \<noteq> CHR ''/'') (rev p))"

definition path_join :: "string \<Rightarrow> string \<Rightarrow> string" where
  "path_join a b =
     (if b \<noteq> [] \<and> hd b = CHR ''/'' then b
      else if a = [] \<or> last a = CHR ''/'' then a @ b
      else a @ ''/'' @ b)"

text \<open>
  The body of the loop over a batch (lines 295 to 375) for one path. The result of
  \<^verbatim>\<open>create_thumbnail\<close> is ignored by the code and it never raises, so it leaves no trace
  here. The classifier is called with its default budget of 2 retries.
\<close>

definition process_item :: "world \<Rightarrow> nat \<Rightarrow> string \<Rightarrow> run \<Rightarrow> run" where
  "process_item w total_images path st =
     (case hash_of w path of
        None \<Rightarrow> st\<lparr>log_lines := log_lines st @ [CouldNotHash path]\<rparr>
      | Some fh \<Rightarrow>
          if fh = [] then st\<lparr>log_lines := log_lines st @ [CouldNotHash path]\<rparr>
          else
            (let secure_name = take 10 fh @ ''_'' @ basename path
             in if list_ex (\<lambda>r. hash r = fh) (images (catalog st)) then
                  update_progress w total_images (processed st + 1) ''processing''
                    (st\<lparr>log_lines := log_lines st @ [SkippingDuplicate path],
                        skipped := skipped st + 1,
                        processed := processed st + 1\<rparr>)
                else
                  (case (if copy_fails w path then Inl OSError
                         else insert_image secure_name path fh
                                (basename (path_join (thumbnails_dir w) secure_name))
                                (fst (classify_image_with_ollama (json_error w) (replies_for w path) 0 2))
                                (fst (extract_image_metadata (library w) (image_at w path)))
                                (catalog st)) of
                     Inr d \<Rightarrow>
                       update_progress w total_images (processed st + 1) ''processing''
                         (st\<lparr>catalog := d,
                             processed := processed st + 1,
                             log_lines := log_lines st @ [Processed (processed st + 1) total_images path]\<rparr>)
                   | Inl e \<Rightarrow>
                       update_progress w total_images (processed st + 1) ''processing''
                         (st\<lparr>log_lines := log_lines st @ [ErrorProcessing path e],
                             processed := processed st + 1\<rparr>))))"

text \<open>
  The loop over the batches (lines 291 to 294), for a positive batch size:
  \<^verbatim>\<open>for i in range(0, total_images, batch_size)\<close> with the slice
  \<^verbatim>\<open>image_files[i:min(i+batch_size, total_images)]\<close>.
\<close>

function batch_loop :: "world \<Rightarrow> string list \<Rightarrow> nat \<Rightarrow> nat \<Rightarrow> run \<Rightarrow> run" where
  "batch_loop w image_files batch_size i st =
     (if i < length image_files \<and> 0 < batch_size then
        batch_loop w image_files batch_size (i + batch_size)
          (fold (process_item w (length image_files))
             (take (min (i + batch_size) (length image_files) - i) (drop i image_files)) st)
      else st)"
  by pat_completeness auto
termination
  by (relation "measure (\<lambda>(w, image_files, batch_size, i, st). length image_files - i)") auto

text \<open>
  \<^verbatim>\<open>process_images\<close>, with the scanned file list in place of the source directory and
  the database content found at \<^verbatim>\<open>db_path\<close>. A batch size of zero makes
  \<^verbatim>\<open>range\<close> raise \<^verbatim>\<open>ValueError\<close>, which nothing catches; a negative one gives an
  empty range. The result is the final state and the exception that ended the run, if
  any.
\<close>

definition process_images :: "world \<Rightarrow> string list \<Rightarrow> int \<Rightarrow> db \<Rightarrow> run \<times> exc option" where
  "process_images w image_files batch_size d =
     (let total_images = length image_files;
          st = update_progress w total_images 0 ''starting''
                 \<lparr>catalog = d, processed = 0, skipped = 0, progress_log = [], log_lines = []\<rparr>
      in if batch_size = 0 then (st, Some ValueError)
         else
           (let st = (if batch_size < 0 then st
                      else batch_loop w image_files (nat batch_size) 0 st);
                st = update_progress w total_images total_images ''completed'' st
            in (st\<lparr>log_lines := log_lines st @ [ImportCompleted (processed st) (skipped st)]\<rparr>, None)))"

text \<open>
  A world for concrete runs: no file can be hashed, copies succeed, no file opens as an
  image, every request fails in transport, the clock stands at zero.
\<close>

definition bare_world :: world where
  "bare_world =
     \<lparr>hash_of = Map.empty, copy_fails = (\<lambda>p. False), image_at = (\<lambda>p. NotAnImage),
      replies_for = (\<lambda>p. scripted []), json_error = RequestException, library = plain_lib,
      thumbnails_dir = ''data/thumbnails'', clock = (\<lambda>n. 0)\<rparr>"

text \<open>
  A file is hashable when \<^verbatim>\<open>calculate_file_hash\<close> returns a non-empty digest, and
  importable when, being new to the catalog, every step of its item succeeds: the copy
  does not raise and the values extracted can be bound.
\<close>

definition hashable :: "world \<Rightarrow> string \<Rightarrow> bool" where
  "hashable w path = (case hash_of w path of None \<Rightarrow> False | Some fh \<Rightarrow> fh \<noteq> [])"



text \<open>
  The count stored for a tag (0 when the tag has no row) and the number of image rows
  whose tag list contains it; the invariant that the two agree for every tag; and the
  well-formedness that the schema and the writers maintain: row ids are pairwise
  distinct and no stored tag list repeats a tag.
\<close>

definition stored_count :: "db \<Rightarrow> string \<Rightarrow> int" where
  "stored_count d t = (case tag_counts d t of None \<Rightarrow> 0 | Some c \<Rightarrow> c)"

definition records_with_tag :: "db \<Rightarrow> string \<Rightarrow> nat" where
  "records_with_tag d t = length (filter (\<lambda>r. t \<in> set (tags r)) (images d))"

definition counts_exact :: "db \<Rightarrow> bool" where
  "counts_exact d = (\<forall>t. stored_count d t = int (records_with_tag d t))"

definition tidy :: "db \<Rightarrow> bool" where
  "tidy d = (distinct (map row_id (images d))
             \<and> list_all (\<lambda>r. row_id r < next_id d \<and> distinct (tags r)) (images d))"

text \<open>
  The two writers of the catalog as operations: an import run over a file list, and an
  edit of one record's tag list. An operation is regular when the tag lists it stores
  repeat no tag and the edit addresses an existing record.
\<close>

datatype catalog_op = Import world "string list" int | Edit nat "string list"

fun apply_op :: "catalog_op \<Rightarrow> db \<Rightarrow> db" where
  "apply_op (Import w image_files batch_size) d =
     catalog (fst (process_images w image_files batch_size d))"
| "apply_op (Edit image_id new_tags) d = update_image_tags image_id new_tags d"

fun regular_op :: "catalog_op \<Rightarrow> db \<Rightarrow> bool" where
  "regular_op (Import w image_files batch_size) d =
     list_all (\<lambda>p. distinct (fst (classify_image_with_ollama (json_error w)
                                     (replies_for w p) 0 2))) image_files"
| "regular_op (Edit image_id new_tags) d =
     (list_ex (\<lambda>r. row_id r = image_id) (images d) \<and> distinct new_tags)"

fun apply_ops :: "catalog_op list \<Rightarrow> db \<Rightarrow> db" where
  "apply_ops [] d = d"
| "apply_ops (x # xs) d = apply_ops xs (apply_op x d)"

fun regular_ops :: "catalog_op list \<Rightarrow> db \<Rightarrow> bool" where
  "regular_ops [] d = True"
| "regular_ops (x # xs) d = (regular_op x d \<and> regular_ops xs (apply_op x d))"

section \<open>The progress file and the liveness check (app.py)\<close>

text \<open>
  The progress file \<^verbatim>\<open>import_progress.json\<close> holds one JSON object. A JSON value
  as Python's \<^verbatim>\<open>json.load\<close> returns it: a number, a string, a boolean, null, or
  a container (the type \<open>json\<close> above). Time stamps are seconds since the epoch;
  they are modelled as reals.
\<close>

text \<open>
  What \<^verbatim>\<open>json.load\<close> finds in the file: text that is no JSON object (the load, or
  the later \<^verbatim>\<open>.get\<close>, raises), or a dictionary.
\<close>

datatype progress_content = Malformed | Dict "string \<rightharpoonup> json"

record fs =
  progress_file :: "progress_content option"  \<comment> \<open>\<open>None\<close>: the file does not exist\<close>
  writable :: bool                            \<comment> \<open>whether \<^verbatim>\<open>open(PROGRESS_FILE, 'w')\<close> succeeds\<close>




section \<open>Lemmas about the string operations\<close>



















section \<open>Lemmas about the classifier\<close>

declare classify_image_with_ollama.simps [simp del]

lemma parse_tags_nonempty: "parse_tags text \<noteq> []"
  by (simp add: parse_tags_def Let_def)

lemma attempt_body_trace:
  "snd (attempt_body je a) = [Attempt] \<or> snd (attempt_body je a) = [Attempt, Request]"
  by (cases a) (auto split: reply_body.splits json.splits option.splits)

lemma attempt_body_tags_nonempty: "fst (attempt_body je a) = Inr (Tags tgs) \<Longrightarrow> tgs \<noteq> []"
  by (cases a) (auto split: reply_body.splits json.splits option.splits if_splits simp: parse_tags_nonempty)

lemma classify_unfold:
  "classify_image_with_ollama je replies k retries =
     (case fst (attempt_body je (replies k)) of
        Inr (Tags tgs) \<Rightarrow> (tgs, snd (attempt_body je (replies k)))
      | Inr NonSuccess \<Rightarrow>
          if retries > 0 then
            (fst (classify_image_with_ollama je replies (k + 1) (retries - 1)),
             snd (attempt_body je (replies k)) @ [LogWarning, Sleep 2]
               @ snd (classify_image_with_ollama je replies (k + 1) (retries - 1)))
          else ([''uncategorized''], snd (attempt_body je (replies k)) @ [LogError])
      | Inl e \<Rightarrow>
          if e = RequestException \<and> retries > 0 then
            (fst (classify_image_with_ollama je replies (k + 1) (retries - 1)),
             snd (attempt_body je (replies k)) @ [LogWarning, Sleep 2]
               @ snd (classify_image_with_ollama je replies (k + 1) (retries - 1)))
          else ([''error''], snd (attempt_body je (replies k)) @ [LogError]))"
  by (subst classify_image_with_ollama.simps)
     (auto split: prod.splits sum.splits outcome.splits)

lemma attempt_body_count [simp]:
  "count_list (snd (attempt_body je a)) Attempt = 1"
  "count_list (snd (attempt_body je a)) (Sleep n) = 0"
  "Sleep n \<notin> set (snd (attempt_body je a))"
  using attempt_body_trace [of je a] by auto

lemma classify_attempts:
  "count_list (snd (classify_image_with_ollama je replies k retries)) Attempt \<le> nat retries + 1"
proof (induction "nat retries" arbitrary: k retries)
  case 0
  then have "\<not> retries > 0" by simp
  then show ?case
    by (subst classify_unfold) (simp split: sum.splits outcome.splits)
next
  case (Suc m)
  then have m: "m = nat (retries - 1)" and pos: "retries > 0" by simp_all
  from pos have "Suc (nat (retries - 1)) = nat retries" by simp
  with Suc.hyps(1) [OF m, of "k + 1"] pos show ?case
    by (subst classify_unfold) (simp split: sum.splits outcome.splits)
qed

lemma classify_sleeps:
  "count_list (snd (classify_image_with_ollama je replies k retries)) (Sleep 2) + 1
   = count_list (snd (classify_image_with_ollama je replies k retries)) Attempt"
proof (induction "nat retries" arbitrary: k retries)
  case 0
  then have "\<not> retries > 0" by simp
  then show ?case
    by (subst (1 2) classify_unfold) (simp split: sum.splits outcome.splits)
next
  case (Suc m)
  then have m: "m = nat (retries - 1)" and pos: "retries > 0" by simp_all
  from Suc.hyps(1) [OF m, of "k + 1"] pos show ?case
    by (subst (1 2) classify_unfold) (simp split: sum.splits outcome.splits)
qed

lemma classify_sleep_2:
  "Sleep n \<in> set (snd (classify_image_with_ollama je replies k retries)) \<Longrightarrow> n = 2"
proof (induction "nat retries" arbitrary: k retries)
  case 0
  then have "\<not> retries > 0" by simp
  with 0(2) show ?case
    by (subst (asm) classify_unfold) (simp split: sum.splits outcome.splits)
next
  case (Suc m)
  then have m: "m = nat (retries - 1)" and pos: "retries > 0" by simp_all
  from Suc.hyps(1) [OF m, of "k + 1"] pos Suc.prems show ?case
    by (subst (asm) classify_unfold) (auto split: sum.splits outcome.splits if_splits)
qed

lemma classify_nonempty:
  "fst (classify_image_with_ollama je replies k retries) \<noteq> []"
proof (induction "nat retries" arbitrary: k retries)
  case 0
  then have "\<not> retries > 0" by simp
  then show ?case
    by (subst classify_unfold)
       (simp split: sum.splits outcome.splits add: attempt_body_tags_nonempty)
next
  case (Suc m)
  then have m: "m = nat (retries - 1)" and pos: "retries > 0" by simp_all
  from Suc.hyps(1) [OF m, of "k + 1"] pos show ?case
    by (subst classify_unfold)
       (simp split: sum.splits outcome.splits add: attempt_body_tags_nonempty)
qed

lemma transient_body:
  "transient_failure a \<Longrightarrow>
     attempt_body je a = (Inl RequestException, [Attempt, Request])
   \<or> attempt_body je a = (Inr NonSuccess, [Attempt, Request])"
  by (cases a) auto

lemma classify_transient_retry:
  assumes "transient_failure (replies k)" "retries > 0"
  shows "classify_image_with_ollama je replies k retries =
           (fst (classify_image_with_ollama je replies (k + 1) (retries - 1)),
            [Attempt, Request, LogWarning, Sleep 2]
              @ snd (classify_image_with_ollama je replies (k + 1) (retries - 1)))"
  using transient_body [OF assms(1), of je] assms(2)
  by (subst classify_unfold) auto

lemma classify_exhausted:
  assumes "transient_failure (replies k)" "\<not> retries > 0"
  shows "classify_image_with_ollama je replies k retries =
           (if replies k = Transport then [''error''] else [''uncategorized''],
            [Attempt, Request, LogError])"
  using assms by (subst classify_unfold) (cases "replies k"; simp)



section \<open>Lemmas about the metadata extraction\<close>

declare show_nat.simps [simp del]










section \<open>The classifier's response parsing\<close>







section \<open>The classifier's retry budget\<close>

text \<open>
  C4. Called with its default budget of 2 retries, the classifier makes at most 3
  attempts; it sleeps once before each retry, always for 2 seconds; on a transport
  failure or a non-200 response it retries while budget remains; when the three
  attempts all fail in that way, the last one decides the result: \<^verbatim>\<open>["error"]\<close>
  for a transport failure, \<^verbatim>\<open>["uncategorized"]\<close> for a non-200 response. The
  result is a non-empty tag list in every case.
\<close>

theorem C4_retry_budget:
  "count_list (snd (classify_image_with_ollama je replies k 2)) Attempt \<le> 3
 \<and> count_list (snd (classify_image_with_ollama je replies k 2)) (Sleep 2) + 1
     = count_list (snd (classify_image_with_ollama je replies k 2)) Attempt
 \<and> (\<forall>n. Sleep n \<in> set (snd (classify_image_with_ollama je replies k 2)) \<longrightarrow> n = 2)
 \<and> fst (classify_image_with_ollama je replies k 2) \<noteq> []
 \<and> (transient_failure (replies k) \<longrightarrow>
      classify_image_with_ollama je replies k 2 =
        (fst (classify_image_with_ollama je replies (k + 1) 1),
         [Attempt, Request, LogWarning, Sleep 2]
           @ snd (classify_image_with_ollama je replies (k + 1) 1)))
 \<and> (transient_failure (replies k) \<and> transient_failure (replies (k + 1))
      \<and> transient_failure (replies (k + 2)) \<longrightarrow>
      classify_image_with_ollama je replies k 2 =
        (if replies (k + 2) = Transport then [''error''] else [''uncategorized''],
         [Attempt, Request, LogWarning, Sleep 2,
          Attempt, Request, LogWarning, Sleep 2,
          Attempt, Request, LogError]))"
proof (intro conjI impI allI)
  show "count_list (snd (classify_image_with_ollama je replies k 2)) Attempt \<le> 3"
    using classify_attempts [of je replies k 2] by simp
  show "count_list (snd (classify_image_with_ollama je replies k 2)) (Sleep 2) + 1
        = count_list (snd (classify_image_with_ollama je replies k 2)) Attempt"
    by (rule classify_sleeps)
  show "n = 2" if "Sleep n \<in> set (snd (classify_image_with_ollama je replies k 2))" for n
    using that by (rule classify_sleep_2)
  show "fst (classify_image_with_ollama je replies k 2) \<noteq> []"
    by (rule classify_nonempty)
  show "classify_image_with_ollama je replies k 2 =
        (fst (classify_image_with_ollama je replies (k + 1) 1),
         [Attempt, Request, LogWarning, Sleep 2]
           @ snd (classify_image_with_ollama je replies (k + 1) 1))"
    if "transient_failure (replies k)"
    using classify_transient_retry [of replies k 2 je] that by simp
  show "classify_image_with_ollama je replies k 2 =
        (if replies (k + 2) = Transport then [''error''] else [''uncategorized''],
         [Attempt, Request, LogWarning, Sleep 2,
          Attempt, Request, LogWarning, Sleep 2,
          Attempt, Request, LogError])"
    if t: "transient_failure (replies k) \<and> transient_failure (replies (k + 1))
           \<and> transient_failure (replies (k + 2))"
  proof -
    have a: "classify_image_with_ollama je replies ((k + 1) + 1) 0 =
             (if replies (k + 2) = Transport then [''error''] else [''uncategorized''],
              [Attempt, Request, LogError])"
      using classify_exhausted [of replies "k + 2" 0 je] t by (simp add: add.assoc)
    have b: "classify_image_with_ollama je replies (k + 1) 1 =
             (fst (classify_image_with_ollama je replies ((k + 1) + 1) 0),
              [Attempt, Request, LogWarning, Sleep 2]
                @ snd (classify_image_with_ollama je replies ((k + 1) + 1) 0))"
      using classify_transient_retry [of replies "k + 1" 1 je] t by simp
    have c: "classify_image_with_ollama je replies k 2 =
             (fst (classify_image_with_ollama je replies (k + 1) 1),
              [Attempt, Request, LogWarning, Sleep 2]
                @ snd (classify_image_with_ollama je replies (k + 1) 1))"
      using classify_transient_retry [of replies k 2 je] t by simp
    show ?thesis unfolding c b a by simp
  qed
qed

theorem C4_retry_budget_witness:
  "transient_failure (scripted [Response 503 InvalidJson, Transport, Response 500 JsonNonObject] 0)
 \<and> transient_failure (scripted [Response 503 InvalidJson, Transport, Response 500 JsonNonObject] 1)
 \<and> transient_failure (scripted [Response 503 InvalidJson, Transport, Response 500 JsonNonObject] 2)
 \<and> classify_image_with_ollama ValueError
      (scripted [Response 503 InvalidJson, Transport, Response 500 JsonNonObject]) 0 2
    = ([''uncategorized''],
       [Attempt, Request, LogWarning, Sleep 2,
        Attempt, Request, LogWarning, Sleep 2,
        Attempt, Request, LogError])"
proof -
  let ?r = "scripted [Response 503 InvalidJson, Transport, Response 500 JsonNonObject]"
  have t0: "transient_failure (?r 0)" and t1: "transient_failure (?r 1)"
    and t2: "transient_failure (?r 2)" and r2: "(?r (0 + 2) = Transport) = False"
    by (simp_all add: scripted_def)
  have t: "transient_failure (?r 0) \<and> transient_failure (?r (0 + 1))
           \<and> transient_failure (?r (0 + 2))"
    by (simp add: scripted_def)
  from C4_retry_budget [of ValueError ?r 0] t
  have "classify_image_with_ollama ValueError ?r 0 2 =
        (if ?r (0 + 2) = Transport then [''error''] else [''uncategorized''],
         [Attempt, Request, LogWarning, Sleep 2,
          Attempt, Request, LogWarning, Sleep 2,
          Attempt, Request, LogError])"
    by blast
  then have "classify_image_with_ollama ValueError ?r 0 2 =
        ([''uncategorized''],
         [Attempt, Request, LogWarning, Sleep 2,
          Attempt, Request, LogWarning, Sleep 2,
          Attempt, Request, LogError])"
    by (simp only: r2 if_False)
  with t0 t1 t2 show ?thesis by blast
qed

section \<open>Lemmas about the pipeline\<close>

declare batch_loop.simps [simp del]

lemma fold_take_drop: "fold f (drop k xs) (fold f (take k xs) s) = fold f xs s"
  by (metis append_take_drop_id fold_append comp_apply)

lemma batch_loop_fold:
  "0 < bs \<Longrightarrow>
   batch_loop w fs bs i st = fold (process_item w (length fs)) (drop i fs) st"
proof (induction w fs bs i st rule: batch_loop.induct)
  case (1 w fs bs i st)
  show ?case
  proof (cases "i < length fs")
    case False
    then show ?thesis by (subst batch_loop.simps) simp
  next
    case True
    have t: "take (min (i + bs) (length fs) - i) (drop i fs) = take bs (drop i fs)"
      by (cases "i + bs \<le> length fs") (simp_all add: min_def)
    have d: "drop (i + bs) fs = drop bs (drop i fs)"
      by (simp add: add.commute)
    have "batch_loop w fs bs i st
          = batch_loop w fs bs (i + bs)
              (fold (process_item w (length fs)) (take bs (drop i fs)) st)"
      using True "1.prems" by (subst batch_loop.simps) (simp add: t)
    also have "\<dots> = fold (process_item w (length fs)) (drop (i + bs) fs)
                      (fold (process_item w (length fs)) (take bs (drop i fs)) st)"
      using "1.IH" [OF _ "1.prems"] True "1.prems" by (simp add: t)
    also have "\<dots> = fold (process_item w (length fs)) (drop i fs) st"
      unfolding d by (rule fold_take_drop)
    finally show ?thesis .
  qed
qed

lemma process_item_unhashable:
  "\<not> hashable w p \<Longrightarrow>
   process_item w n p st = st\<lparr>log_lines := log_lines st @ [CouldNotHash p]\<rparr>"
  by (auto simp: process_item_def hashable_def split: option.splits)


lemma process_item_counts:
  assumes "hashable w p"
  shows "processed (process_item w n p st) = processed st + 1"
    and "progress_log (process_item w n p st) =
           progress_log st @
             [\<lparr>total = n, current = processed st + 1, status = ''processing'',
               timestamp = clock w (length (progress_log st))\<rparr>]"
  using assms
  by (auto simp: process_item_def hashable_def update_progress_def Let_def
           split: option.splits sum.splits)


lemma fold_processed:
  "processed (fold (process_item w n) fs st) = processed st + length (filter (hashable w) fs)"
proof (induction fs arbitrary: st)
  case Nil
  show ?case by simp
next
  case (Cons p fs)
  show ?case
  proof (cases "hashable w p")
    case True
    then show ?thesis by (simp add: Cons.IH process_item_counts)
  next
    case False
    then show ?thesis by (simp add: Cons.IH process_item_unhashable)
  qed
qed

lemma upt_shift: "map f [0..<Suc m] = f 0 # map (\<lambda>j. f (Suc j)) [0..<m]"
proof -
  have "[0..<Suc m] = 0 # map Suc [0..<m]"
    by (simp add: upt_conv_Cons map_Suc_upt del: upt_Suc)
  then show ?thesis by (simp add: comp_def del: upt_Suc)
qed

lemma fold_progress_log:
  "progress_log (fold (process_item w n) fs st) =
     progress_log st @
       map (\<lambda>j. \<lparr>total = n, current = processed st + 1 + j, status = ''processing'',
                  timestamp = clock w (length (progress_log st) + j)\<rparr>)
         [0..<length (filter (hashable w) fs)]"
proof (induction fs arbitrary: st)
  case Nil
  show ?case by simp
next
  case (Cons p fs)
  show ?case
  proof (cases "hashable w p")
    case True
    have "fold (process_item w n) (p # fs) st
          = fold (process_item w n) fs (process_item w n p st)" by simp
    then show ?thesis
      using True
      by (simp add: Cons.IH process_item_counts upt_shift del: upt_Suc)
  next
    case False
    then show ?thesis by (simp add: Cons.IH process_item_unhashable)
  qed
qed

lemma process_images_positive:
  assumes "0 < bs"
  shows "process_images w fs bs d =
     (let st0 = update_progress w (length fs) 0 ''starting''
                  \<lparr>catalog = d, processed = 0, skipped = 0, progress_log = [], log_lines = []\<rparr>;
          st1 = fold (process_item w (length fs)) fs st0;
          st2 = update_progress w (length fs) (length fs) ''completed'' st1
      in (st2\<lparr>log_lines := log_lines st2 @ [ImportCompleted (processed st2) (skipped st2)]\<rparr>,
          None))"
  using assms by (simp add: process_images_def Let_def batch_loop_fold)

lemma process_images_progress:
  assumes "0 < bs"
  shows "progress_log (fst (process_images w fs bs d)) =
           \<lparr>total = length fs, current = 0, status = ''starting'', timestamp = clock w 0\<rparr>
           # map (\<lambda>j. \<lparr>total = length fs, current = j + 1, status = ''processing'',
                        timestamp = clock w (j + 1)\<rparr>)
               [0..<length (filter (hashable w) fs)]
           @ [\<lparr>total = length fs, current = length fs, status = ''completed'',
               timestamp = clock w (length (filter (hashable w) fs) + 1)\<rparr>]"
  using assms
  by (simp add: process_images_positive Let_def update_progress_def fold_progress_log
           del: upt_Suc)

lemma process_images_negative:
  assumes "bs < 0"
  shows "progress_log (fst (process_images w fs bs d)) =
           [\<lparr>total = length fs, current = 0, status = ''starting'', timestamp = clock w 0\<rparr>,
            \<lparr>total = length fs, current = length fs, status = ''completed'',
              timestamp = clock w 1\<rparr>]"
  using assms by (simp add: process_images_def Let_def update_progress_def)

lemma process_images_processed:
  assumes "0 < bs"
  shows "processed (fst (process_images w fs bs d)) = length (filter (hashable w) fs)"
  using assms
  by (simp add: process_images_positive Let_def update_progress_def fold_processed)















lemma process_images_catalog:
  assumes "0 < bs"
  shows "catalog (fst (process_images w fs bs d))
         = catalog (fold (process_item w (length fs)) fs
             (update_progress w (length fs) 0 ''starting''
                \<lparr>catalog = d, processed = 0, skipped = 0, progress_log = [], log_lines = []\<rparr>))"
    and "skipped (fst (process_images w fs bs d))
         = skipped (fold (process_item w (length fs)) fs
             (update_progress w (length fs) 0 ''starting''
                \<lparr>catalog = d, processed = 0, skipped = 0, progress_log = [], log_lines = []\<rparr>))"
  using assms by (simp_all add: process_images_positive Let_def update_progress_def)

section \<open>Lemmas about the tag counts\<close>

lemma fold_add_or_update_tag:
  "(case fold add_or_update_tag tgs c t of None \<Rightarrow> 0 | Some n \<Rightarrow> n)
   = (case c t of None \<Rightarrow> 0 | Some n \<Rightarrow> n) + int (count_list tgs t)"
  by (induction tgs arbitrary: c)
     (auto simp: add_or_update_tag_def split: option.splits)

lemma count_list_distinct: "distinct xs \<Longrightarrow> count_list xs x = (if x \<in> set xs then 1 else 0)"
  by (induction xs) auto

lemma insert_image_counts:
  assumes "insert_image sn p fh th tgs md d = Inr d'"
  shows "stored_count d' t = stored_count d t + int (count_list tgs t)"
    and "records_with_tag d' t = records_with_tag d t + (if t \<in> set tgs then 1 else 0)"
  using assms
  by (auto simp: insert_image_def stored_count_def records_with_tag_def
        fold_add_or_update_tag split: if_splits)

lemma insert_image_exact:
  assumes "insert_image sn p fh th tgs md d = Inr d'" "distinct tgs" "counts_exact d"
  shows "counts_exact d'"
  using assms(2,3) insert_image_counts [OF assms(1)]
  by (simp add: counts_exact_def count_list_distinct)

lemma insert_image_tidy:
  assumes "insert_image sn p fh th tgs md d = Inr d'" "distinct tgs" "tidy d"
  shows "tidy d'"
  using assms
  by (fastforce simp: insert_image_def tidy_def list_all_iff less_Suc_eq split: if_splits)

lemma fold_decrease_distinct:
  assumes "distinct xs"
  shows "fold (\<lambda>tag c. if P tag then decrease_tag tag c else c) xs c t
         = (if t \<in> set xs \<and> P t then map_option (\<lambda>n. n - 1) (c t) else c t)"
  using assms
proof (induction xs arbitrary: c)
  case Nil
  show ?case by simp
next
  case (Cons x xs)
  then show ?case
    by (auto simp: decrease_tag_def split: option.splits)
qed

lemma fold_increase_distinct:
  assumes "distinct xs"
  shows "fold (\<lambda>tag c. case c tag of
                          None \<Rightarrow> c(tag \<mapsto> 1)
                        | Some n \<Rightarrow> if Q tag then c(tag \<mapsto> n + 1) else c) xs c t
         = (if t \<in> set xs
            then (case c t of None \<Rightarrow> Some 1
                  | Some n \<Rightarrow> if Q t then Some (n + 1) else Some n)
            else c t)"
  using assms
proof (induction xs arbitrary: c)
  case Nil
  show ?case by simp
next
  case (Cons x xs)
  then show ?case
    by (auto split: option.splits)
qed

lemma find_row_id:
  assumes "distinct (map row_id rows)" "r \<in> set rows"
  shows "find (\<lambda>x. row_id x = row_id r) rows = Some r"
  using assms by (induction rows) (auto simp: image_iff)

lemma retag_count:
  assumes "distinct (map row_id rows)" "r \<in> set rows"
  shows "int (length (filter (\<lambda>x. t \<in> set (tags x))
                 (map (\<lambda>x. if row_id x = row_id r then x\<lparr>tags := new\<rparr> else x) rows)))
         = int (length (filter (\<lambda>x. t \<in> set (tags x)) rows))
           - (if t \<in> set (tags r) then 1 else 0) + (if t \<in> set new then 1 else 0)"
  using assms
proof (induction rows)
  case Nil
  then show ?case by simp
next
  case (Cons y rows)
  show ?case
  proof (cases "y = r")
    case True
    then have "\<forall>x \<in> set rows. row_id x \<noteq> row_id r"
      using Cons.prems(1) by (auto simp: image_iff)
    then have "map (\<lambda>x. if row_id x = row_id r then x\<lparr>tags := new\<rparr> else x) rows = rows"
      by (intro map_idI) auto
    with True show ?thesis by simp
  next
    case False
    with Cons.prems have r: "r \<in> set rows" and d: "distinct (map row_id rows)"
      and ne: "row_id y \<noteq> row_id r"
      by (auto simp: image_iff)
    from Cons.IH [OF d r] ne show ?thesis by (simp split: if_splits)
  qed
qed

lemma update_image_tags_found:
  assumes "tidy d" "r \<in> set (images d)" "distinct new"
  shows "tag_counts (update_image_tags (row_id r) new d) t =
           (if t \<in> set new then
              (case (if t \<in> set (tags r) \<and> t \<notin> set new
                     then map_option (\<lambda>n. n - 1) (tag_counts d t) else tag_counts d t) of
                 None \<Rightarrow> Some 1
               | Some n \<Rightarrow> if t \<notin> set (tags r) then Some (n + 1) else Some n)
            else if t \<in> set (tags r) \<and> t \<notin> set new
                 then map_option (\<lambda>n. n - 1) (tag_counts d t) else tag_counts d t)"
    and "images (update_image_tags (row_id r) new d) =
           map (\<lambda>x. if row_id x = row_id r then x\<lparr>tags := new\<rparr> else x) (images d)"
    and "next_id (update_image_tags (row_id r) new d) = next_id d"
proof -
  have f: "find (\<lambda>x. row_id x = row_id r) (images d) = Some r"
    using assms(1,2) by (intro find_row_id) (simp_all add: tidy_def)
  have dr: "distinct (tags r)"
    using assms(1,2) by (auto simp: tidy_def list_all_iff)
  let ?c1 = "fold (\<lambda>tag c. if tag \<notin> set new then decrease_tag tag c else c)
               (tags r) (tag_counts d)"
  have c1: "?c1 t = (if t \<in> set (tags r) \<and> t \<notin> set new
                     then map_option (\<lambda>n. n - 1) (tag_counts d t) else tag_counts d t)" for t
    using fold_decrease_distinct [OF dr, of "\<lambda>tag. tag \<notin> set new" "tag_counts d" t] by simp
  have c2: "fold (\<lambda>tag c. case c tag of
                            None \<Rightarrow> c(tag \<mapsto> 1)
                          | Some n \<Rightarrow> if tag \<notin> set (tags r) then c(tag \<mapsto> n + 1) else c)
              new ?c1 t
            = (if t \<in> set new
               then (case ?c1 t of None \<Rightarrow> Some 1
                     | Some n \<Rightarrow> if t \<notin> set (tags r) then Some (n + 1) else Some n)
               else ?c1 t)"
    using fold_increase_distinct [OF assms(3), of "\<lambda>tag. tag \<notin> set (tags r)" ?c1 t] by simp
  show "tag_counts (update_image_tags (row_id r) new d) t =
           (if t \<in> set new then
              (case (if t \<in> set (tags r) \<and> t \<notin> set new
                     then map_option (\<lambda>n. n - 1) (tag_counts d t) else tag_counts d t) of
                 None \<Rightarrow> Some 1
               | Some n \<Rightarrow> if t \<notin> set (tags r) then Some (n + 1) else Some n)
            else if t \<in> set (tags r) \<and> t \<notin> set new
                 then map_option (\<lambda>n. n - 1) (tag_counts d t) else tag_counts d t)"
  proof -
    have "tag_counts (update_image_tags (row_id r) new d)
          = fold (\<lambda>tag c. case c tag of
                              None \<Rightarrow> c(tag \<mapsto> 1)
                            | Some n \<Rightarrow> if tag \<notin> set (tags r) then c(tag \<mapsto> n + 1) else c)
              new ?c1"
      by (simp add: update_image_tags_def Let_def f cong: option.case_cong)
    then show ?thesis by (simp only: c2 c1)
  qed
  show "images (update_image_tags (row_id r) new d) =
           map (\<lambda>x. if row_id x = row_id r then x\<lparr>tags := new\<rparr> else x) (images d)"
    by (simp add: update_image_tags_def Let_def)
  show "next_id (update_image_tags (row_id r) new d) = next_id d"
    by (simp add: update_image_tags_def Let_def)
qed

lemma update_image_tags_exact:
  assumes "tidy d" "counts_exact d" "r \<in> set (images d)" "distinct new"
  shows "counts_exact (update_image_tags (row_id r) new d)"
  unfolding counts_exact_def
proof
  fix t
  have ex: "stored_count d t = int (records_with_tag d t)"
    using assms(2) by (simp add: counts_exact_def)
  have pos: "t \<in> set (tags r) \<Longrightarrow> 1 \<le> records_with_tag d t"
    using assms(3)
    by (auto simp: records_with_tag_def Suc_le_eq length_greater_0_conv filter_empty_conv)
  have some: "t \<in> set (tags r) \<Longrightarrow> \<exists>n. tag_counts d t = Some n"
    using ex pos by (cases "tag_counts d t") (auto simp: stored_count_def)
  have rows: "int (records_with_tag (update_image_tags (row_id r) new d) t)
              = int (records_with_tag d t)
                - (if t \<in> set (tags r) then 1 else 0) + (if t \<in> set new then 1 else 0)"
    unfolding records_with_tag_def update_image_tags_found(2) [OF assms(1,3,4)]
    using assms(1,3) by (intro retag_count) (simp_all add: tidy_def)
  show "stored_count (update_image_tags (row_id r) new d) t
        = int (records_with_tag (update_image_tags (row_id r) new d) t)"
    unfolding rows
    using ex some
    by (auto simp: stored_count_def update_image_tags_found(1) [OF assms(1,3,4)]
             split: option.splits)
qed

lemma update_image_tags_tidy:
  assumes "tidy d" "r \<in> set (images d)" "distinct new"
  shows "tidy (update_image_tags (row_id r) new d)"
proof -
  let ?f = "\<lambda>x. if row_id x = row_id r then x\<lparr>tags := new\<rparr> else x"
  have "map row_id (map ?f xs) = map row_id xs" for xs :: "image_row list"
    by (induction xs) auto
  then have "distinct (map row_id (map ?f (images d)))"
    using assms(1) by (simp only: tidy_def)
  moreover have "list_all (\<lambda>x. row_id x < next_id d \<and> distinct (tags x)) (map ?f (images d))"
    using assms(1,3) by (auto simp: tidy_def list_all_iff)
  ultimately show ?thesis
    by (simp only: tidy_def update_image_tags_found [OF assms] simp_thms)
qed

lemma process_item_inserts:
  "catalog (process_item w n p st) = catalog st
   \<or> (\<exists>sn fh th md.
        insert_image sn p fh th
          (fst (classify_image_with_ollama (json_error w) (replies_for w p) 0 2)) md
          (catalog st) = Inr (catalog (process_item w n p st)))"
  by (auto simp: process_item_def update_progress_def Let_def
           split: option.splits sum.splits)

lemma process_item_exact:
  assumes "distinct (fst (classify_image_with_ollama (json_error w) (replies_for w p) 0 2))"
    and "tidy (catalog st) \<and> counts_exact (catalog st)"
  shows "tidy (catalog (process_item w n p st)) \<and> counts_exact (catalog (process_item w n p st))"
  using process_item_inserts [of w n p st] assms
  by (auto intro: insert_image_exact insert_image_tidy)

lemma fold_exact:
  assumes "list_all (\<lambda>p. distinct (fst (classify_image_with_ollama (json_error w)
                                          (replies_for w p) 0 2))) fs"
    and "tidy (catalog st) \<and> counts_exact (catalog st)"
  shows "tidy (catalog (fold (process_item w n) fs st))
         \<and> counts_exact (catalog (fold (process_item w n) fs st))"
  using assms
proof (induction fs arbitrary: st)
  case Nil
  then show ?case by simp
next
  case (Cons p fs)
  have "tidy (catalog (process_item w n p st)) \<and> counts_exact (catalog (process_item w n p st))"
    using Cons.prems by (intro process_item_exact) simp_all
  with Cons.prems(1) show ?case by (simp add: Cons.IH)
qed

lemma apply_op_exact:
  assumes "regular_op x d" "tidy d \<and> counts_exact d"
  shows "tidy (apply_op x d) \<and> counts_exact (apply_op x d)"
proof (cases x)
  case (Import w fs bs)
  show ?thesis
  proof (cases "0 < bs")
    case True
    let ?st = "update_progress w (length fs) 0 ''starting''
                 \<lparr>catalog = d, processed = 0, skipped = 0, progress_log = [], log_lines = []\<rparr>"
    have "catalog ?st = d" by (simp add: update_progress_def)
    with assms Import
    have "tidy (catalog (fold (process_item w (length fs)) fs ?st))
          \<and> counts_exact (catalog (fold (process_item w (length fs)) fs ?st))"
      by (intro fold_exact) simp_all
    then show ?thesis
      using Import process_images_catalog(1) [OF True, of w fs d] by simp
  next
    case False
    then have "catalog (fst (process_images w fs bs d)) = d"
      by (simp add: process_images_def Let_def update_progress_def)
    with assms Import show ?thesis by simp
  qed
next
  case (Edit image_id new_tags)
  with assms(1) obtain r where r: "r \<in> set (images d)" "row_id r = image_id"
    and dn: "distinct new_tags"
    by (auto simp: list_ex_iff)
  have "tidy (update_image_tags (row_id r) new_tags d)"
    using assms(2) r(1) dn by (intro update_image_tags_tidy) simp_all
  moreover have "counts_exact (update_image_tags (row_id r) new_tags d)"
    using assms(2) r(1) dn by (intro update_image_tags_exact) simp_all
  ultimately show ?thesis using Edit r(2) by simp
qed

lemma apply_ops_exact:
  assumes "regular_ops xs d" "tidy d \<and> counts_exact d"
  shows "tidy (apply_ops xs d) \<and> counts_exact (apply_ops xs d)"
  using assms
proof (induction xs arbitrary: d)
  case Nil
  then show ?case by simp
next
  case (Cons x xs)
  have "tidy (apply_op x d) \<and> counts_exact (apply_op x d)"
    using Cons.prems by (intro apply_op_exact) simp_all
  with Cons.prems(1) show ?case by (simp add: Cons.IH)
qed

lemma empty_db_exact: "tidy empty_db \<and> counts_exact empty_db"
  by (simp add: tidy_def counts_exact_def empty_db_def stored_count_def records_with_tag_def)

text \<open>
  Where the invariant does hold: starting from the empty catalog, after any sequence of
  import runs whose classifier answers repeat no tag and of edits that address an
  existing record with a tag list that repeats no tag, the stored count of every tag is
  the number of records whose tag list contains it.
\<close>

lemma tag_counts_exact_for_regular_ops:
  assumes "regular_ops xs empty_db"
  shows "stored_count (apply_ops xs empty_db) t = int (records_with_tag (apply_ops xs empty_db) t)"
  using apply_ops_exact [OF assms empty_db_exact] by (simp add: counts_exact_def)



section \<open>Failures inside the metadata extraction\<close>







section \<open>The shutter speed\<close>




section \<open>Failures the classifier does not retry\<close>



section \<open>The processed counter\<close>

text \<open>
  C5 (what the code does). An item whose file is hashable advances the processed counter
  by one and writes one progress record, whatever its outcome (imported, skipped as a
  duplicate, or failed). An item whose file cannot be hashed only adds a log line: the
  counter is not advanced, no progress record is written, and the catalog is untouched.
  At the end of a run the counter is the number of hashable files, not the number of
  files.
\<close>

theorem C5_processed_counter:
  "(\<not> hashable w p \<longrightarrow>
      process_item w n p st = st\<lparr>log_lines := log_lines st @ [CouldNotHash p]\<rparr>)
 \<and> (hashable w p \<longrightarrow>
      processed (process_item w n p st) = processed st + 1
      \<and> progress_log (process_item w n p st) =
          progress_log st @
            [\<lparr>total = n, current = processed st + 1, status = ''processing'',
              timestamp = clock w (length (progress_log st))\<rparr>])
 \<and> (0 < bs \<longrightarrow>
      processed (fst (process_images w fs bs d)) = length (filter (hashable w) fs))"
  by (simp add: process_item_unhashable process_item_counts process_images_processed)

theorem C5_processed_counter_witness:
  "\<not> hashable (bare_world\<lparr>hash_of := [''/in/a.jpg'' \<mapsto> ''0123456789abcdef'']\<rparr>) ''/in/x.jpg''
 \<and> process_item (bare_world\<lparr>hash_of := [''/in/a.jpg'' \<mapsto> ''0123456789abcdef'']\<rparr>) 2
      ''/in/x.jpg''
      \<lparr>catalog = empty_db, processed = 0, skipped = 0, progress_log = [], log_lines = []\<rparr>
    = \<lparr>catalog = empty_db, processed = 0, skipped = 0, progress_log = [],
        log_lines = [CouldNotHash ''/in/x.jpg'']\<rparr>
 \<and> hashable (bare_world\<lparr>hash_of := [''/in/a.jpg'' \<mapsto> ''0123456789abcdef'']\<rparr>) ''/in/a.jpg''
 \<and> processed (process_item (bare_world\<lparr>hash_of := [''/in/a.jpg'' \<mapsto> ''0123456789abcdef'']\<rparr>) 2
      ''/in/a.jpg''
      \<lparr>catalog = empty_db, processed = 0, skipped = 0, progress_log = [], log_lines = []\<rparr>)
    = 1
 \<and> (0::int) < 20
 \<and> processed (fst (process_images
      (bare_world\<lparr>hash_of := [''/in/a.jpg'' \<mapsto> ''0123456789abcdef'']\<rparr>)
      [''/in/x.jpg'', ''/in/a.jpg''] 20 empty_db)) = 1"
proof -
  let ?w = "bare_world\<lparr>hash_of := [''/in/a.jpg'' \<mapsto> ''0123456789abcdef'']\<rparr>"
  let ?st = "\<lparr>catalog = empty_db, processed = 0, skipped = 0, progress_log = [],
              log_lines = []\<rparr>"
  have x: "\<not> hashable ?w ''/in/x.jpg''" and a: "hashable ?w ''/in/a.jpg''"
    by (simp_all add: hashable_def bare_world_def)
  have 1: "process_item ?w 2 ''/in/x.jpg'' ?st
           = ?st\<lparr>log_lines := log_lines ?st @ [CouldNotHash ''/in/x.jpg'']\<rparr>"
    using C5_processed_counter [of ?w "''/in/x.jpg''" 2 ?st 20 "[]" empty_db] x by blast
  have 2: "processed (process_item ?w 2 ''/in/a.jpg'' ?st) = processed ?st + 1"
    using C5_processed_counter [of ?w "''/in/a.jpg''" 2 ?st 20 "[]" empty_db] a by blast
  have 3: "processed (fst (process_images ?w [''/in/x.jpg'', ''/in/a.jpg''] 20 empty_db))
           = length (filter (hashable ?w) [''/in/x.jpg'', ''/in/a.jpg''])"
    using C5_processed_counter [of ?w "''/in/x.jpg''" 2 ?st 20
                                   "[''/in/x.jpg'', ''/in/a.jpg'']" empty_db]
    by simp
  show ?thesis using x a 1 2 3 by simp
qed

section \<open>The sequence of progress writes\<close>

lemma sorted_progress_currents:
  assumes "m \<le> n"
  shows "sorted (0 # map (\<lambda>j. j + 1) [0..<m] @ [n])"
proof -
  have "map (\<lambda>j. j + 1) [0..<m] = [1..<Suc m]"
    using map_Suc_upt [of 0 m] by simp
  then show ?thesis using assms by (auto simp: sorted_append simp del: upt_Suc)
qed

text \<open>
  C6 (as amended). A run with a positive batch size writes the progress record once
  with status \<^verbatim>\<open>starting\<close> and current 0, then once with status \<^verbatim>\<open>processing\<close>
  after each hashable file, with current 1, 2, ..., and last once with status
  \<^verbatim>\<open>completed\<close> and current equal to the total. So the current value never
  decreases, \<^verbatim>\<open>completed\<close> is written exactly once, as the last write, and carries
  the total. It is not the only write that can carry the total: when every file is
  hashable (and there is at least one), the \<^verbatim>\<open>processing\<close> write after the last file
  already has current equal to the total.
\<close>

theorem C6_progress_writes:
  "(0 < bs \<longrightarrow>
      progress_log (fst (process_images w fs bs d)) =
        \<lparr>total = length fs, current = 0, status = ''starting'', timestamp = clock w 0\<rparr>
        # map (\<lambda>j. \<lparr>total = length fs, current = j + 1, status = ''processing'',
                     timestamp = clock w (j + 1)\<rparr>)
            [0..<length (filter (hashable w) fs)]
        @ [\<lparr>total = length fs, current = length fs, status = ''completed'',
            timestamp = clock w (length (filter (hashable w) fs) + 1)\<rparr>])
 \<and> (0 < bs \<longrightarrow>
      sorted (map current (progress_log (fst (process_images w fs bs d))))
      \<and> status (last (progress_log (fst (process_images w fs bs d)))) = ''completed''
      \<and> current (last (progress_log (fst (process_images w fs bs d)))) = length fs
      \<and> list_all (\<lambda>p. status p \<noteq> ''completed'' \<and> current p \<le> length fs)
           (butlast (progress_log (fst (process_images w fs bs d)))))
 \<and> (0 < bs \<and> fs \<noteq> [] \<and> list_all (hashable w) fs \<longrightarrow>
      last (butlast (progress_log (fst (process_images w fs bs d)))) =
        \<lparr>total = length fs, current = length fs, status = ''processing'',
          timestamp = clock w (length fs)\<rparr>)
 \<and> (bs < 0 \<longrightarrow>
      progress_log (fst (process_images w fs bs d)) =
        [\<lparr>total = length fs, current = 0, status = ''starting'', timestamp = clock w 0\<rparr>,
         \<lparr>total = length fs, current = length fs, status = ''completed'',
           timestamp = clock w 1\<rparr>])
 \<and> (bs = 0 \<longrightarrow>
      progress_log (fst (process_images w fs bs d)) =
        [\<lparr>total = length fs, current = 0, status = ''starting'', timestamp = clock w 0\<rparr>]
      \<and> snd (process_images w fs bs d) = Some ValueError)"
proof (intro conjI impI)
  show "progress_log (fst (process_images w fs bs d)) =
        [\<lparr>total = length fs, current = 0, status = ''starting'', timestamp = clock w 0\<rparr>,
         \<lparr>total = length fs, current = length fs, status = ''completed'',
           timestamp = clock w 1\<rparr>]" if "bs < 0"
    using that by (rule process_images_negative)
  show "progress_log (fst (process_images w fs bs d)) =
        [\<lparr>total = length fs, current = 0, status = ''starting'', timestamp = clock w 0\<rparr>]"
    if "bs = 0"
    using that by (simp add: process_images_def Let_def update_progress_def)
  show "snd (process_images w fs bs d) = Some ValueError" if "bs = 0"
    using that by (simp add: process_images_def Let_def)
next
  assume bs: "0 < bs"
  let ?m = "length (filter (hashable w) fs)"
  let ?writes = "progress_log (fst (process_images w fs bs d))"
  note eq = process_images_progress [OF bs, of w fs d]
  show "?writes =
        \<lparr>total = length fs, current = 0, status = ''starting'', timestamp = clock w 0\<rparr>
        # map (\<lambda>j. \<lparr>total = length fs, current = j + 1, status = ''processing'',
                     timestamp = clock w (j + 1)\<rparr>) [0..<?m]
        @ [\<lparr>total = length fs, current = length fs, status = ''completed'',
            timestamp = clock w (?m + 1)\<rparr>]"
    by (rule eq)
  have m: "?m \<le> length fs" by simp
  have "map current ?writes = 0 # map (\<lambda>j. j + 1) [0..<?m] @ [length fs]"
    unfolding eq by (simp add: comp_def del: upt_Suc)
  then show "sorted (map current ?writes)"
    using sorted_progress_currents [OF m] by simp
  show "status (last ?writes) = ''completed''"
    unfolding eq by simp
  show "current (last ?writes) = length fs"
    unfolding eq by simp
  have "butlast ?writes =
        \<lparr>total = length fs, current = 0, status = ''starting'', timestamp = clock w 0\<rparr>
        # map (\<lambda>j. \<lparr>total = length fs, current = j + 1, status = ''processing'',
                     timestamp = clock w (j + 1)\<rparr>) [0..<?m]"
    unfolding eq by (simp add: butlast_append del: upt_Suc)
  then show "list_all (\<lambda>p. status p \<noteq> ''completed'' \<and> current p \<le> length fs) (butlast ?writes)"
    using m by (auto simp: list_all_iff Suc_le_eq simp del: upt_Suc intro: less_le_trans)
next
  assume a: "0 < bs \<and> fs \<noteq> [] \<and> list_all (hashable w) fs"
  then have bs: "0 < bs" and ne: "fs \<noteq> []" and all: "filter (hashable w) fs = fs"
    by (simp_all add: list_all_iff)
  obtain k where k: "length fs = Suc k" using ne by (cases fs) auto
  note eq = process_images_progress [OF bs, of w fs d]
  show "last (butlast (progress_log (fst (process_images w fs bs d)))) =
        \<lparr>total = length fs, current = length fs, status = ''processing'',
          timestamp = clock w (length fs)\<rparr>"
    unfolding eq all by (simp add: butlast_append k)
qed

theorem C6_progress_writes_witness:
  "(0::int) < 20
 \<and> [''/in/a.jpg''] \<noteq> []
 \<and> list_all (hashable (bare_world\<lparr>hash_of := [''/in/a.jpg'' \<mapsto> ''0123456789abcdef'']\<rparr>))
      [''/in/a.jpg'']
 \<and> last (butlast (progress_log (fst (process_images
      (bare_world\<lparr>hash_of := [''/in/a.jpg'' \<mapsto> ''0123456789abcdef'']\<rparr>)
      [''/in/a.jpg''] 20 empty_db))))
    = \<lparr>total = 1, current = 1, status = ''processing'', timestamp = 0\<rparr>
 \<and> sorted (map current (progress_log (fst (process_images
      (bare_world\<lparr>hash_of := [''/in/a.jpg'' \<mapsto> ''0123456789abcdef'']\<rparr>)
      [''/in/a.jpg''] 20 empty_db))))"
proof -
  let ?w = "bare_world\<lparr>hash_of := [''/in/a.jpg'' \<mapsto> ''0123456789abcdef'']\<rparr>"
  have h: "list_all (hashable ?w) [''/in/a.jpg'']"
    by (simp add: hashable_def bare_world_def)
  have c: "clock ?w (length [''/in/a.jpg'']) = 0" by (simp add: bare_world_def)
  from C6_progress_writes [of 20 ?w "[''/in/a.jpg'']" empty_db] h
  have "last (butlast (progress_log (fst (process_images ?w [''/in/a.jpg''] 20 empty_db))))
        = \<lparr>total = length [''/in/a.jpg''], current = length [''/in/a.jpg''],
            status = ''processing'', timestamp = clock ?w (length [''/in/a.jpg''])\<rparr>"
    and "sorted (map current (progress_log (fst (process_images ?w [''/in/a.jpg''] 20 empty_db))))"
    by simp_all
  with h c show ?thesis by simp
qed

text \<open>
  The claim as worded has current equal to the total exactly once, and never in a
  \<^verbatim>\<open>processing\<close> write. A run over one file writes it twice.
\<close>

theorem C6_counterexample:
  "progress_log (fst (process_images
      (bare_world\<lparr>hash_of := [''/in/a.jpg'' \<mapsto> ''0123456789abcdef'']\<rparr>)
      [''/in/a.jpg''] 20 empty_db))
   = [\<lparr>total = 1, current = 0, status = ''starting'', timestamp = 0\<rparr>,
      \<lparr>total = 1, current = 1, status = ''processing'', timestamp = 0\<rparr>,
      \<lparr>total = 1, current = 1, status = ''completed'', timestamp = 0\<rparr>]"
  by (simp add: process_images_progress hashable_def bare_world_def)

section \<open>Importing the same files twice\<close>



section \<open>Tag counts\<close>

text \<open>
  C2 (a run where the code breaks the invariant). One new image for which the classifier
  answers \<^verbatim>\<open>TAGS: cat, cat\<close> is stored with the tag list \<^verbatim>\<open>["cat", "cat"]\<close>; the
  loop over the tags inserts the tag with count 1 and then increments it, so the stored
  count of \<^verbatim>\<open>cat\<close> is 2 while one record holds the tag.
\<close>

theorem C2_duplicate_tag_overcounts:
  "map tags (images (catalog (fst (process_images
      (bare_world\<lparr>hash_of := [''/in/a.jpg'' \<mapsto> ''0123456789abcdef''],
                   replies_for := (\<lambda>p. scripted
                     [Response 200 (JsonObject (Some (JStr ''TAGS: cat, cat'')))])\<rparr>)
      [''/in/a.jpg''] 20 empty_db)))) = [[''cat'', ''cat'']]
 \<and> tag_counts (catalog (fst (process_images
      (bare_world\<lparr>hash_of := [''/in/a.jpg'' \<mapsto> ''0123456789abcdef''],
                   replies_for := (\<lambda>p. scripted
                     [Response 200 (JsonObject (Some (JStr ''TAGS: cat, cat'')))])\<rparr>)
      [''/in/a.jpg''] 20 empty_db))) ''cat'' = Some 2
 \<and> length (filter (\<lambda>r. ''cat'' \<in> set (tags r)) (images (catalog (fst (process_images
      (bare_world\<lparr>hash_of := [''/in/a.jpg'' \<mapsto> ''0123456789abcdef''],
                   replies_for := (\<lambda>p. scripted
                     [Response 200 (JsonObject (Some (JStr ''TAGS: cat, cat'')))])\<rparr>)
      [''/in/a.jpg''] 20 empty_db))))) = 1"
proof -
  let ?replies = "scripted [Response 200 (JsonObject (Some (JStr ''TAGS: cat, cat'')))]"
  have p: "parse_tags ''TAGS: cat, cat'' = [''cat'', ''cat'']"
    by (simp add: parse_tags_def strip_def lstrip_def rstrip_def is_space_def)
  have c: "fst (classify_image_with_ollama RequestException ?replies 0 2) = [''cat'', ''cat'']"
    by (subst classify_unfold) (simp add: scripted_def p)
  have "catalog (fst (process_images
          (bare_world\<lparr>hash_of := [''/in/a.jpg'' \<mapsto> ''0123456789abcdef''],
                       replies_for := (\<lambda>p. ?replies)\<rparr>)
          [''/in/a.jpg''] 20 empty_db))
        = \<lparr>images =
             [\<lparr>row_id = 1, filename = ''0123456789_a.jpg'', original_path = ''/in/a.jpg'',
               hash = ''0123456789abcdef'', thumbnail_path = ''0123456789_a.jpg'',
               tags = [''cat'', ''cat''], meta = no_metadata\<rparr>],
           tag_counts = [''cat'' \<mapsto> 2], next_id = 2\<rparr>"
    by (simp add: process_images_positive Let_def process_item_def update_progress_def
          insert_image_def bare_world_def empty_db_def c
          extract_image_metadata_def no_metadata_def basename_def path_join_def
          add_or_update_tag_def)
  then show ?thesis by simp
qed

end
